theory Spec2Isabelle
  imports Main
begin

section \<open>Text primitives of the host language\<close>

text \<open>
  Texts are modelled as \<^typ>\<open>string\<close>, one \<^typ>\<open>char\<close> per character. The character
  classes below are the ones Python uses on code points below 128 (\<^verbatim>\<open>\s\<close> and
  \<^verbatim>\<open>str.strip\<close>: 9 to 13, 28 to 31 and 32; \<^verbatim>\<open>\w\<close>: letters, digits and the
  underscore; \<^verbatim>\<open>str.lower\<close>: A to Z). A character from 128 on is in none of the
  classes and is its own lower case: the model covers ASCII texts.
\<close>

definition is_space :: "char \<Rightarrow> bool" where
  "is_space c = (let n = (of_char c :: nat) in (9 \<le> n \<and> n \<le> 13) \<or> (28 \<le> n \<and> n \<le> 32))"

definition is_digit :: "char \<Rightarrow> bool" where
  "is_digit c = (let n = (of_char c :: nat) in 48 \<le> n \<and> n \<le> 57)"

definition is_upper :: "char \<Rightarrow> bool" where
  "is_upper c = (let n = (of_char c :: nat) in 65 \<le> n \<and> n \<le> 90)"

definition is_word :: "char \<Rightarrow> bool" where
  "is_word c = (let n = (of_char c :: nat) in
     (48 \<le> n \<and> n \<le> 57) \<or> (65 \<le> n \<and> n \<le> 90) \<or> n = 95 \<or> (97 \<le> n \<and> n \<le> 122))"

definition lower_char :: "char \<Rightarrow> char" where
  "lower_char c = (if is_upper c then char_of (of_char c + (32 :: nat)) else c)"

definition lower :: "string \<Rightarrow> string" where
  "lower s = map lower_char s"

definition strip :: "string \<Rightarrow> string" where
  "strip s = rev (dropWhile is_space (rev (dropWhile is_space s)))"

definition startswith :: "string \<Rightarrow> string \<Rightarrow> bool" where
  "startswith s p = (take (length p) s = p)"

text \<open>\<^verbatim>\<open>p in s\<close> for strings: \<open>p\<close> occurs in \<open>s\<close> as a contiguous block.\<close>

fun contains :: "string \<Rightarrow> string \<Rightarrow> bool" where
  "contains [] p = (p = [])"
| "contains (c # cs) p = (startswith (c # cs) p \<or> contains cs p)"

text \<open>\<^verbatim>\<open>s.split(sep)\<close> for a one-character separator: it never returns an empty list.\<close>

fun split_on :: "char \<Rightarrow> string \<Rightarrow> string list" where
  "split_on sep [] = [[]]"
| "split_on sep (c # cs) =
     (if c = sep then [] # split_on sep cs
      else (case split_on sep cs of
              [] \<Rightarrow> [[c]]
            | p # ps \<Rightarrow> (c # p) # ps))"

section \<open>Regular expressions of \<^verbatim>\<open>dns_utils\<close>\<close>

text \<open>
  A matcher tries its pattern at one position of the text. It sees the character before
  the position (\<open>None\<close> at the start of the text) and the text from the position on, and
  returns what the caller reports for the match (the whole match, or its group 1) with
  the number of characters the match spans. All the patterns below span at least one
  character.
\<close>

type_synonym matcher = "char option \<Rightarrow> string \<Rightarrow> (string \<times> nat) option"

text \<open>\<^verbatim>\<open>\b\<close>: exactly one of the two neighbours is a word character; beyond either end
  of the text there is none.\<close>

definition word_boundary :: "char option \<Rightarrow> string \<Rightarrow> bool" where
  "word_boundary prev rest =
     ((case prev of None \<Rightarrow> False | Some c \<Rightarrow> is_word c)
      \<noteq> (case rest of [] \<Rightarrow> False | c # _ \<Rightarrow> is_word c))"

text \<open>A literal under \<^verbatim>\<open>re.I\<close>; the literals of this module are in lower case.\<close>

definition lit_ci :: "string \<Rightarrow> string \<Rightarrow> bool" where
  "lit_ci p s = (length p \<le> length s \<and> lower (take (length p) s) = p)"

text \<open>\<^verbatim>\<open>\b\<close> at the end of a literal of \<open>n\<close> characters (\<open>n > 0\<close>) matched at the head
  of \<open>s\<close>.\<close>

definition boundary_after :: "nat \<Rightarrow> string \<Rightarrow> bool" where
  "boundary_after n s = word_boundary (Some (s ! (n - 1))) (drop n s)"

text \<open>A literal followed by \<^verbatim>\<open>[^\s]+\<close>, which is greedy and followed by nothing: the
  run of characters up to the next white space, and no match when the run is empty.\<close>

definition lit_run :: "string \<Rightarrow> string \<Rightarrow> (string \<times> string) option" where
  "lit_run p s =
     (if lit_ci p s then
        (let run = takeWhile (\<lambda>c. \<not> is_space c) (drop (length p) s)
         in if run = [] then None else Some (take (length p) s, run))
      else None)"

text \<open>\<^verbatim>\<open>SPF_INCLUDE_RE = \binclude:([^\s]+)\<close>, reporting group 1.\<close>

definition SPF_INCLUDE_RE :: matcher where
  "SPF_INCLUDE_RE prev s =
     (if word_boundary prev s then
        (case lit_run ''include:'' s of
           None \<Rightarrow> None
         | Some (l, run) \<Rightarrow> Some (run, length l + length run))
      else None)"

text \<open>\<^verbatim>\<open>SPF_REDIRECT_RE = \bredirect=([^\s]+)\<close>, reporting group 1.\<close>

definition SPF_REDIRECT_RE :: matcher where
  "SPF_REDIRECT_RE prev s =
     (if word_boundary prev s then
        (case lit_run ''redirect='' s of
           None \<Rightarrow> None
         | Some (l, run) \<Rightarrow> Some (run, length l + length run))
      else None)"

text \<open>A bare mechanism \<^verbatim>\<open>ptr\b\<close>, \<^verbatim>\<open>mx\b\<close> or \<^verbatim>\<open>a\b\<close>.\<close>

definition lit_word :: "string \<Rightarrow> string \<Rightarrow> (string \<times> nat) option" where
  "lit_word p s =
     (if lit_ci p s \<and> boundary_after (length p) s
      then Some (take (length p) s, length p) else None)"

text \<open>
  \<^verbatim>\<open>SPF_MECHANISM_LOOKUP_RE =
     \b(?:include:[^\s]+|exists:[^\s]+|ptr\b|mx\b|a\b|redirect=[^\s]+)\<close>,
  reporting the whole match. The alternatives are tried in the order of the pattern.
\<close>

definition SPF_MECHANISM_LOOKUP_RE :: matcher where
  "SPF_MECHANISM_LOOKUP_RE prev s =
     (if word_boundary prev s then
        (case lit_run ''include:'' s of
           Some (l, run) \<Rightarrow> Some (l @ run, length l + length run)
         | None \<Rightarrow>
        (case lit_run ''exists:'' s of
           Some (l, run) \<Rightarrow> Some (l @ run, length l + length run)
         | None \<Rightarrow>
        (case lit_word ''ptr'' s of
           Some m \<Rightarrow> Some m
         | None \<Rightarrow>
        (case lit_word ''mx'' s of
           Some m \<Rightarrow> Some m
         | None \<Rightarrow>
        (case lit_word ''a'' s of
           Some m \<Rightarrow> Some m
         | None \<Rightarrow>
        (case lit_run ''redirect='' s of
           Some (l, run) \<Rightarrow> Some (l @ run, length l + length run)
         | None \<Rightarrow> None))))))
      else None)"

text \<open>\<^verbatim>\<open>SPF_ALL_RE = \b(?:~all|-all|\+all|\?all)\b\<close>, reporting the whole match.\<close>

definition SPF_ALL_RE :: matcher where
  "SPF_ALL_RE prev s =
     (if word_boundary prev s
         \<and> (lit_ci ''~all'' s \<or> lit_ci ''-all'' s \<or> lit_ci ''+all'' s \<or> lit_ci ''?all'' s)
         \<and> boundary_after 4 s
      then Some (take 4 s, 4) else None)"

text \<open>
  \<^verbatim>\<open>pattern.findall(text)\<close>: the matches from left to right, each search resuming where
  the match before it ended. \<open>prev\<close> is the character before the position.
\<close>

fun findall_from :: "matcher \<Rightarrow> char option \<Rightarrow> string \<Rightarrow> string list" where
  "findall_from m prev [] = []"
| "findall_from m prev (c # cs) =
     (case m prev (c # cs) of
        None \<Rightarrow> findall_from m (Some c) cs
      | Some (g, n) \<Rightarrow> g # findall_from m (Some ((c # cs) ! (n - 1))) (drop (n - 1) cs))"

definition findall :: "matcher \<Rightarrow> string \<Rightarrow> string list" where
  "findall m s = findall_from m None s"

text \<open>\<^verbatim>\<open>pattern.search(text)\<close>: the leftmost match, if any.\<close>

fun search_from :: "matcher \<Rightarrow> char option \<Rightarrow> string \<Rightarrow> string option" where
  "search_from m prev [] = None"
| "search_from m prev (c # cs) =
     (case m prev (c # cs) of
        None \<Rightarrow> search_from m (Some c) cs
      | Some (g, n) \<Rightarrow> Some g)"

definition search :: "matcher \<Rightarrow> string \<Rightarrow> string option" where
  "search m s = search_from m None s"

section \<open>SPF parser\<close>

record spf_record =
  raw :: string
  includes' :: "string list"
  redirect :: "string option"
  lookup_mechanisms :: "string list"
  all_mechanism :: "string option"

definition parse_spf :: "string \<Rightarrow> spf_record" where
  "parse_spf spf_text =
     \<lparr> raw = spf_text,
       includes' = findall SPF_INCLUDE_RE spf_text,
       redirect = (case findall SPF_REDIRECT_RE spf_text of [] \<Rightarrow> None | r # _ \<Rightarrow> Some r),
       lookup_mechanisms = findall SPF_MECHANISM_LOOKUP_RE spf_text,
       all_mechanism = search SPF_ALL_RE spf_text \<rparr>"

section \<open>The DNS collaborator\<close>

text \<open>
  \<^verbatim>\<open>dns_query_txt(name)\<close> is the only access to the network. It is a parameter of the
  model: \<open>Inr txts\<close> is the list of TXT strings it returns (empty when the name has
  none), \<open>Inl e\<close> an exception it lets through, \<open>e\<close> being the text of the exception.
\<close>

type_synonym dns = "string \<Rightarrow> string + string list"

text \<open>\<^verbatim>\<open>t.strip().lower().startswith("v=spf1")\<close>\<close>

definition is_spf :: "string \<Rightarrow> bool" where
  "is_spf t = startswith (lower (strip t)) ''v=spf1''"

section \<open>SPF lookup resolver\<close>

text \<open>
  The variables that \<^verbatim>\<open>_recurse\<close> shares with its caller. \<open>queries\<close> is not a variable
  of the source: it records, in order, the names passed to \<^verbatim>\<open>dns_query_txt\<close>, so that
  claims about the queries made can be stated.
\<close>

record walk =
  resolved :: "string set"
  visited :: "string set"
  errors :: "string list"
  lookup_count :: int
  queries :: "string list"

text \<open>
  The walk ends because the depth is bounded: a call of \<open>recurse\<close> at a depth beyond
  \<open>max_recursion\<close> returns at once, each level below has finitely many include targets,
  and each target finitely many SPF strings. \<open>walk_size\<close> orders the calls: first by the
  levels left, then by the length of the list a loop still has to go through.
\<close>

definition walk_size ::
  "(dns \<times> int \<times> string \<times> string \<times> int \<times> walk)
     + (dns \<times> int \<times> string list \<times> int \<times> walk)
     + (dns \<times> int \<times> string \<times> string list \<times> int \<times> walk) \<Rightarrow> nat \<times> nat" where
  "walk_size x =
     (case x of
        Inl (q, m, nm, txt, d, w) \<Rightarrow> (if d > m then 0 else 3 * nat (m + 1 - d) + 3, 0)
      | Inr (Inl (q, m, incs, d, w)) \<Rightarrow> (3 * nat (m + 1 - d) + 2, length incs)
      | Inr (Inr (q, m, inc, ss, d, w)) \<Rightarrow> (3 * nat (m + 2 - d) + 1, length ss))"

text \<open>
  \<open>recurse\<close> is \<^verbatim>\<open>_recurse\<close>; \<open>include_loop\<close> is its \<^verbatim>\<open>for inc in ...\<close> loop over the
  include targets still to do at depth \<open>depth\<close>; \<open>found_loop\<close> is the inner
  \<^verbatim>\<open>for s in found_spf\<close> loop, whose calls of \<^verbatim>\<open>_recurse\<close> are at depth \<open>depth\<close>.
\<close>

function recurse :: "dns \<Rightarrow> int \<Rightarrow> string \<Rightarrow> string \<Rightarrow> int \<Rightarrow> walk \<Rightarrow> walk"
  and include_loop :: "dns \<Rightarrow> int \<Rightarrow> string list \<Rightarrow> int \<Rightarrow> walk \<Rightarrow> walk"
  and found_loop :: "dns \<Rightarrow> int \<Rightarrow> string \<Rightarrow> string list \<Rightarrow> int \<Rightarrow> walk \<Rightarrow> walk"
where
  "recurse q max_recursion name txt depth w =
     (if depth > max_recursion
      then w\<lparr>errors := errors w @ [''spf include recursion depth exceeded at '' @ name]\<rparr>
      else include_loop q max_recursion (findall SPF_INCLUDE_RE txt) depth
             (w\<lparr>lookup_count :=
                   lookup_count w + int (length (findall SPF_MECHANISM_LOOKUP_RE txt))\<rparr>))"
| "include_loop q max_recursion [] depth w = w"
| "include_loop q max_recursion (inc0 # rest) depth w =
     (if strip inc0 \<in> visited w then include_loop q max_recursion rest depth w
      else
        (case q (strip inc0) of
           Inl e \<Rightarrow>
             include_loop q max_recursion rest depth
               (w\<lparr>visited := insert (strip inc0) (visited w),
                   queries := queries w @ [strip inc0],
                   errors := errors w
                     @ [''error resolving include '' @ strip inc0 @ '': '' @ e]\<rparr>)
         | Inr inc_txts \<Rightarrow>
             include_loop q max_recursion rest depth
               (found_loop q max_recursion (strip inc0) (filter is_spf inc_txts) (depth + 1)
                  (w\<lparr>visited := insert (strip inc0) (visited w),
                      queries := queries w @ [strip inc0],
                      resolved := insert (strip inc0) (resolved w)\<rparr>))))"
| "found_loop q max_recursion inc [] depth w = w"
| "found_loop q max_recursion inc (s # ss) depth w =
     found_loop q max_recursion inc ss depth (recurse q max_recursion inc s depth w)"
  by pat_completeness auto

termination
  by (relation "inv_image (less_than <*lex*> less_than) walk_size")
     (auto simp: walk_size_def)

declare recurse.simps [simp del]

text \<open>\<open>resolve_walk\<close> is the body of \<^verbatim>\<open>resolve_spf_lookups\<close> up to its \<^verbatim>\<open>return\<close>: the
  shared variables after the walk. \<open>resolve_spf_lookups\<close> returns three of them.\<close>

definition resolve_walk :: "dns \<Rightarrow> string \<Rightarrow> string \<Rightarrow> int \<Rightarrow> walk" where
  "resolve_walk q domain spf_text max_recursion =
     recurse q max_recursion domain spf_text 0
       \<lparr>resolved = {}, visited = {}, errors = [], lookup_count = 0, queries = []\<rparr>"

definition resolve_spf_lookups ::
  "dns \<Rightarrow> string \<Rightarrow> string \<Rightarrow> int \<Rightarrow> string set \<times> int \<times> string list" where
  "resolve_spf_lookups q domain spf_text max_recursion =
     (let w = resolve_walk q domain spf_text max_recursion
      in (resolved w, lookup_count w, errors w))"

section \<open>DMARC parser\<close>

text \<open>The body of the loop of \<^verbatim>\<open>parse_dmarc\<close>: \<^verbatim>\<open>p.split("=", 1)\<close> cuts at the first
  equals sign.\<close>

definition dmarc_part :: "string \<Rightarrow> (string \<rightharpoonup> string) \<Rightarrow> (string \<rightharpoonup> string)" where
  "dmarc_part p tags =
     (if CHR ''='' \<in> set p then
        (let k = takeWhile (\<lambda>c. c \<noteq> CHR ''='') p;
             v = drop 1 (dropWhile (\<lambda>c. c \<noteq> CHR ''='') p)
         in tags(lower (strip k) \<mapsto> strip v))
      else tags)"

definition parse_dmarc :: "string \<Rightarrow> (string \<rightharpoonup> string)" where
  "parse_dmarc dmarc_text =
     fold dmarc_part (map strip (split_on CHR '';'' dmarc_text)) Map.empty"

section \<open>DKIM selector prober\<close>

record dkim_info =
  selector :: string
  name :: string
  present :: bool
  raw_txt :: "string option"
  key_type :: "string option"
  key_bits_approx :: "int option"
  has_pub :: bool

text \<open>\<^verbatim>\<open>\bp=([^;]+)\<close> and \<^verbatim>\<open>\bk=([^;]+)\<close>, case-sensitive, reporting group 1: the run of
  characters up to the next semicolon, which must not be empty.\<close>

definition tag_re :: "string \<Rightarrow> matcher" where
  "tag_re tag prev s =
     (if word_boundary prev s \<and> startswith s (tag @ ''='') then
        (let run = takeWhile (\<lambda>c. c \<noteq> CHR '';'') (drop (length tag + 1) s)
         in if run = [] then None else Some (run, length tag + 1 + length run))
      else None)"

text \<open>\<^verbatim>\<open>re.sub(r"\s+", "", pub)\<close>\<close>

definition remove_spaces :: "string \<Rightarrow> string" where
  "remove_spaces s = filter (\<lambda>c. \<not> is_space c) s"

text \<open>The TXT string the prober reads: the first with \<^verbatim>\<open>v=DKIM1\<close> or \<^verbatim>\<open>p=\<close> in it,
  else the first of all.\<close>

definition choose_dkim_txt :: "string list \<Rightarrow> string" where
  "choose_dkim_txt txts =
     (case find (\<lambda>t. contains t ''v=DKIM1'' \<or> contains t ''p='') txts of
        Some t \<Rightarrow> if t = [] then hd txts else t
      | None \<Rightarrow> hd txts)"

text \<open>\<open>Inl e\<close> is an exception that the query let through, which the prober does not
  catch.\<close>

definition check_dkim_selector :: "dns \<Rightarrow> string \<Rightarrow> string \<Rightarrow> string + dkim_info" where
  "check_dkim_selector q domain sel =
     (let nm = sel @ ''._domainkey.'' @ domain in
      case q nm of
        Inl e \<Rightarrow> Inl e
      | Inr txts \<Rightarrow>
          if txts = [] then
            Inr \<lparr> selector = sel, name = nm, present = False, raw_txt = None,
                  key_type = None, key_bits_approx = None, has_pub = False \<rparr>
          else
            (let dkim_txt = choose_dkim_txt txts;
                 pub = map_option strip (search (tag_re ''p'') dkim_txt);
                 hp = (case pub of None \<Rightarrow> False | Some v \<Rightarrow> v \<noteq> [] \<and> v \<noteq> ''-'')
             in Inr \<lparr> selector = sel, name = nm, present = True, raw_txt = Some dkim_txt,
                      key_type = map_option strip (search (tag_re ''k'') dkim_txt),
                      key_bits_approx =
                        (case pub of
                           None \<Rightarrow> None
                         | Some v \<Rightarrow>
                             if hp then Some (int (length (remove_spaces v)) * 6) else None),
                      has_pub = hp \<rparr>))"

section \<open>Scoring engine\<close>

text \<open>\<^verbatim>\<open>str(n)\<close> for an integer, as the f-strings of the reasons print it.\<close>

fun digits_of :: "nat \<Rightarrow> string" where
  "digits_of n =
     (if n < 10 then [char_of (48 + n)]
      else digits_of (n div 10) @ [char_of (48 + n mod 10)])"

declare digits_of.simps [simp del]

definition str_int :: "int \<Rightarrow> string" where
  "str_int i = (if i < 0 then CHR ''-'' # digits_of (nat (- i)) else digits_of (nat i))"

text \<open>
  \<^verbatim>\<open>int(s)\<close> for a string, \<open>None\<close> where it raises \<^verbatim>\<open>ValueError\<close>: white space around
  (for an ASCII string, the characters 9 to 13 and 32), an optional sign, then decimal
  digits, single underscores allowed between two digits, and no more than 4300 digits.
\<close>

definition c_isspace :: "char \<Rightarrow> bool" where
  "c_isspace c = (let n = (of_char c :: nat) in (9 \<le> n \<and> n \<le> 13) \<or> n = 32)"

fun digits_ok :: "string \<Rightarrow> bool" where
  "digits_ok [] = False"
| "digits_ok [c] = is_digit c"
| "digits_ok (c # d # r) =
     (is_digit c \<and> (if d = CHR ''_'' then digits_ok r else digits_ok (d # r)))"

definition digits_value :: "string \<Rightarrow> nat" where
  "digits_value ds = foldl (\<lambda>a c. 10 * a + (of_char c - 48)) 0 ds"

definition py_int :: "string \<Rightarrow> int option" where
  "py_int s =
     (let t = rev (dropWhile c_isspace (rev (dropWhile c_isspace s)));
          signed = (t \<noteq> [] \<and> (hd t = CHR ''-'' \<or> hd t = CHR ''+''));
          body = (if signed then tl t else t);
          ds = filter is_digit body
      in if digits_ok body \<and> length ds \<le> 4300
         then Some (if signed \<and> hd t = CHR ''-''
                    then - int (digits_value ds) else int (digits_value ds))
         else None)"

definition SPF_DNS_LOOKUP_LIMIT :: int where
  "SPF_DNS_LOOKUP_LIMIT = 10"

definition MAX_INCLUDE_RECURSION :: int where
  "MAX_INCLUDE_RECURSION = 10"

record conclusions =
  score :: int
  reasons :: "string list"

text \<open>One rule firing: \<^verbatim>\<open>score -= n\<close> and \<^verbatim>\<open>reasons.append(r)\<close>.\<close>

definition deduct :: "int \<Rightarrow> string \<Rightarrow> conclusions \<Rightarrow> conclusions" where
  "deduct n r c = c\<lparr>score := score c - n, reasons := reasons c @ [r]\<rparr>"

text \<open>The em dash (U+2014) of four of the reasons is beyond \<^typ>\<open>char\<close>: it is written as
  the three bytes of its UTF-8 encoding.\<close>

definition em_dash :: string where
  "em_dash = [CHR 0xE2, CHR 0x80, CHR 0x94]"

text \<open>The body of \<^verbatim>\<open>for d in spf_details\<close>.\<close>

definition spf_detail_rule :: "spf_record \<Rightarrow> conclusions \<Rightarrow> conclusions" where
  "spf_detail_rule d c =
     (case all_mechanism d of
        None \<Rightarrow>
          deduct 5 ''SPF record has no 'all' mechanism - may allow unintended senders.'' c
      | Some all_mech \<Rightarrow>
          if all_mech = [] then
            deduct 5 ''SPF record has no 'all' mechanism - may allow unintended senders.'' c
          else if lower all_mech = ''+all'' then
            deduct 25 (''SPF uses +all (permits everything) '' @ em_dash
                       @ '' critical misconfiguration.'') c
          else if lower all_mech = ''?all'' then
            deduct 10 (''SPF uses ?all (neutral) '' @ em_dash @ '' weak protection.'') c
          else if lower all_mech = ''~all'' then
            deduct 3 (''SPF uses ~all (softfail) '' @ em_dash @ '' allows some leeway.'') c
          else if lower all_mech = ''-all'' then
            deduct 0 (''SPF uses -all (reject) '' @ em_dash @ '' strict, good.'') c
          else c)"

text \<open>The two reasons about the lookup count.\<close>

definition lookups_exceeded :: "int \<Rightarrow> string" where
  "lookups_exceeded n =
     ''SPF mechanisms likely cause '' @ str_int n @ '' DNS lookups (> ''
     @ str_int SPF_DNS_LOOKUP_LIMIT @ ''). This can break SPF enforcement.''"

definition lookups_close :: "int \<Rightarrow> string" where
  "lookups_close n =
     ''SPF mechanisms cause '' @ str_int n @ '' DNS lookups (close to limit).''"

text \<open>The SPF rules: the first \<^verbatim>\<open>if\<close> statement of \<^verbatim>\<open>score_and_conclusions\<close>.\<close>

definition spf_rules :: "string list \<Rightarrow> spf_record list \<Rightarrow> int \<Rightarrow> conclusions \<Rightarrow> conclusions" where
  "spf_rules spf_records spf_details spf_lookup_count c =
     (if spf_records = [] then
        deduct 40 ''No SPF record found (high risk of spoofing).'' c
      else
        (let c1 = (if length spf_records > 1
                   then deduct 30 ''Multiple SPF records found (invalid SPF configuration).'' c
                   else c);
             c2 = fold spf_detail_rule spf_details c1
         in if spf_lookup_count > SPF_DNS_LOOKUP_LIMIT then
              deduct 20 (lookups_exceeded spf_lookup_count) c2
            else if spf_lookup_count > SPF_DNS_LOOKUP_LIMIT - 3 then
              deduct 7 (lookups_close spf_lookup_count) c2
            else c2))"

text \<open>The DMARC rules: the second \<^verbatim>\<open>if\<close> statement.\<close>

definition dmarc_rules :: "string option \<Rightarrow> (string \<rightharpoonup> string) \<Rightarrow> conclusions \<Rightarrow> conclusions" where
  "dmarc_rules dmarc_text dmarc_tags c =
     (if dmarc_text = None \<or> dmarc_text = Some [] then
        deduct 30
          ''No DMARC record found (no domain-wide policy for unauthenticated mail).'' c
      else
        (let p = lower (case dmarc_tags ''p'' of None \<Rightarrow> [] | Some v \<Rightarrow> v);
             c1 = (if p = ''none'' \<or> p = [] then
                     deduct 10
                       ''DMARC policy p=none (monitoring only). Consider p=quarantine or p=reject.''
                       c
                   else if p = ''quarantine'' then
                     deduct 3 ''DMARC policy p=quarantine (moderate).'' c
                   else if p = ''reject'' then
                     deduct 0 ''DMARC policy p=reject (strong).'' c
                   else c);
             pct = (case py_int (case dmarc_tags ''pct'' of None \<Rightarrow> ''100'' | Some v \<Rightarrow> v) of
                      None \<Rightarrow> 100
                    | Some n \<Rightarrow> n);
             c2 = (if pct < 100
                   then deduct 5 (''DMARC pct='' @ str_int pct @ '' (not applied to all mail).'') c1
                   else c1)
         in if dmarc_tags ''rua'' = None then
              deduct 3
                ''No RUA (aggregate) reporting configured (you won't get aggregate reports).''
                c2
            else c2))"

text \<open>The body of \<^verbatim>\<open>for kinfo in dkim_infos\<close>: an estimate that is absent or zero is
  skipped.\<close>

definition dkim_rule :: "dkim_info \<Rightarrow> conclusions \<Rightarrow> conclusions" where
  "dkim_rule kinfo c =
     (case key_bits_approx kinfo of
        None \<Rightarrow> c
      | Some bits \<Rightarrow>
          if bits = 0 then c
          else if bits < 1024 then
            deduct 10 (''DKIM selector '' @ selector kinfo @ '' has a weak public key (~''
                       @ str_int bits @ '' bits estimated).'') c
          else if bits < 2048 then
            deduct 3 (''DKIM selector '' @ selector kinfo @ '' uses ~'' @ str_int bits
                      @ '' bits (consider 2048).'') c
          else
            deduct 0 (''DKIM selector '' @ selector kinfo @ '' key size looks OK (~''
                      @ str_int bits @ '' bits).'') c)"

text \<open>The DKIM rules: the third \<^verbatim>\<open>if\<close> statement.\<close>

definition dkim_rules :: "dkim_info list \<Rightarrow> conclusions \<Rightarrow> conclusions" where
  "dkim_rules dkim_infos c =
     (if dkim_infos = [] then
        deduct 10 ''No DKIM selectors found using heuristics (may not use DKIM).'' c
      else fold dkim_rule dkim_infos c)"

text \<open>\<open>raw_score\<close> is \<^verbatim>\<open>score_and_conclusions\<close> up to its two final \<^verbatim>\<open>if\<close> statements,
  which clamp the score: the values of \<^verbatim>\<open>score\<close> and \<^verbatim>\<open>reasons\<close> at that point.\<close>

definition raw_score ::
  "string list \<Rightarrow> spf_record list \<Rightarrow> int \<Rightarrow> string list \<Rightarrow> string option
     \<Rightarrow> (string \<rightharpoonup> string) \<Rightarrow> dkim_info list \<Rightarrow> conclusions" where
  "raw_score spf_records spf_details spf_lookup_count spf_errors dmarc_text dmarc_tags
       dkim_infos =
     dkim_rules dkim_infos
       (dmarc_rules dmarc_text dmarc_tags
          (spf_rules spf_records spf_details spf_lookup_count
             \<lparr>score = 100, reasons = []\<rparr>))"

definition score_and_conclusions ::
  "string list \<Rightarrow> spf_record list \<Rightarrow> int \<Rightarrow> string list \<Rightarrow> string option
     \<Rightarrow> (string \<rightharpoonup> string) \<Rightarrow> dkim_info list \<Rightarrow> conclusions" where
  "score_and_conclusions spf_records spf_details spf_lookup_count spf_errors dmarc_text
       dmarc_tags dkim_infos =
     (let c = raw_score spf_records spf_details spf_lookup_count spf_errors dmarc_text
                dmarc_tags dkim_infos;
          c1 = (if score c < 0 then c\<lparr>score := 0\<rparr> else c);
          c2 = (if score c1 > 100 then c1\<lparr>score := 100\<rparr> else c1)
      in c2)"

section \<open>Notions and inputs of the properties\<close>

text \<open>
  The \<^verbatim>\<open>p=\<close> value that the prober extracts from the TXT strings that the query
  returned: none when there are no strings; else group 1 of \<^verbatim>\<open>\bp=([^;]+)\<close> in the
  string the prober reads, stripped.
\<close>

definition published_p :: "string list \<Rightarrow> string option" where
  "published_p txts =
     (if txts = [] then None
      else map_option strip (search (tag_re ''p'') (choose_dkim_txt txts)))"

text \<open>
  A key of 256 characters with a blank in its middle, and DNS data for three selectors:
  \<^verbatim>\<open>s1\<close> publishes a record with this key, \<^verbatim>\<open>s2\<close> a record whose key is revoked,
  \<^verbatim>\<open>s3\<close> and all other names nothing.
\<close>

definition key_256 :: string where
  "key_256 = replicate 128 CHR ''A'' @ '' '' @ replicate 128 CHR ''B''"

definition key_256_txt :: string where
  "key_256_txt = ''v=DKIM1; k=rsa; p='' @ key_256 @ '' ; n=x''"

definition key_256_dns :: dns where
  "key_256_dns nm =
     (if nm = ''s1._domainkey.example.com'' then Inr [key_256_txt]
      else if nm = ''s2._domainkey.example.com'' then Inr [''v=DKIM1; p=-'']
      else Inr [])"

text \<open>
  The state of a walk in which every name was queried once: the names queried are
  distinct, they are the names visited, and the resolved names are among them.
\<close>

definition queried_once :: "walk \<Rightarrow> bool" where
  "queried_once w =
     (distinct (queries w) \<and> set (queries w) = visited w \<and> resolved w \<subseteq> visited w)"

text \<open>
  The names a walk can reach through \<^verbatim>\<open>include:\<close> alone: the include targets of the
  text the walk starts from, and those of every SPF string published under a name
  already reached.
\<close>

inductive_set include_reach :: "dns \<Rightarrow> string \<Rightarrow> string set" for q :: dns and root :: string where
  root: "t \<in> set (findall SPF_INCLUDE_RE root) \<Longrightarrow> strip t \<in> include_reach q root"
| step: "n \<in> include_reach q root \<Longrightarrow> q n = Inr txts \<Longrightarrow> s \<in> set txts \<Longrightarrow> is_spf s
         \<Longrightarrow> t \<in> set (findall SPF_INCLUDE_RE s) \<Longrightarrow> strip t \<in> include_reach q root"

text \<open>
  A chain of includes: the names \<^verbatim>\<open>d1\<close> to \<^verbatim>\<open>d11\<close> each publish one SPF record, which
  includes the next name; \<^verbatim>\<open>d12\<close> and all other names publish nothing. The walk starts
  at \<^verbatim>\<open>d0\<close> with the record that includes \<^verbatim>\<open>d1\<close>.
\<close>

definition chain_name :: "nat \<Rightarrow> string" where
  "chain_name k = ''d'' @ str_int (int k)"

definition chain_txt :: "nat \<Rightarrow> string" where
  "chain_txt k = ''v=spf1 include:'' @ chain_name (Suc k) @ '' mx -all''"

definition chain_dns :: dns where
  "chain_dns nm =
     (case find (\<lambda>k. chain_name k = nm) [1 ..< 12] of
        Some k \<Rightarrow> Inr [chain_txt k]
      | None \<Rightarrow> Inr [])"

text \<open>Records with a \<^verbatim>\<open>redirect=\<close>: in the text the walk starts from, and in the record
  of the name it includes.\<close>

definition redirect_dns :: dns where
  "redirect_dns nm =
     (if nm = ''a.example'' then Inr [''unrelated text'', ''v=spf1 mx redirect=s.example'']
      else if nm = ''r.example'' then Inr [''v=spf1 include:t.example -all'']
      else if nm = ''s.example'' then Inr [''v=spf1 include:u.example -all'']
      else Inr [])"

definition redirect_txt :: string where
  "redirect_txt = ''v=spf1 include:a.example redirect=r.example''"

text \<open>Includes in a circle and in a diamond, and the same data with a record added under
  one more name.\<close>

definition loop_txt :: string where
  "loop_txt = ''v=spf1 include:a.example include:b.example include:a.example -all''"

definition loop_dns :: dns where
  "loop_dns nm =
     (if nm = ''example.com'' then Inr [loop_txt]
      else if nm = ''a.example'' then Inr [''v=spf1 include:b.example include:example.com -all'']
      else if nm = ''b.example'' then Inr [''v=spf1 include:a.example mx -all'']
      else Inr [])"

definition loop_dns_later :: dns where
  "loop_dns_later nm = (if nm = ''c.example'' then Inr [''v=spf1 mx -all''] else loop_dns nm)"

section \<open>Properties of the parsers\<close>

text \<open>
  C1. The claim: the \<^verbatim>\<open>all\<close> qualifier that \<open>parse_spf\<close> reports is the first of
  \<^verbatim>\<open>+all\<close>, \<^verbatim>\<open>-all\<close>, \<^verbatim>\<open>~all\<close>, \<^verbatim>\<open>?all\<close> in the text, and is not absent when the text
  has one; \<^verbatim>\<open>v=spf1 include:x.com ~all\<close> gives \<^verbatim>\<open>~all\<close>. On the code the qualifier of
  that text is absent: \<open>SPF_ALL_RE\<close> starts with a word boundary, the four qualifiers
  start with a character that is not a word character, and the space before them is not
  one either. The qualifier is found where it follows a word character.
\<close>

theorem parse_spf_softfail_absent:
  "all_mechanism (parse_spf ''v=spf1 include:x.com ~all'') = None
   \<and> all_mechanism (parse_spf ''v=spf1 -all'') = None
   \<and> all_mechanism (parse_spf ''v=spf1 mx~all'') = Some ''~all''"
  by code_simp

text \<open>
  C7. The lookup mechanisms of \<^verbatim>\<open>v=spf1 include:a.com a mx ~all\<close> are
  \<^verbatim>\<open>include:a.com\<close>, \<^verbatim>\<open>a\<close> and \<^verbatim>\<open>mx\<close>, in this order and no others: three of them.
\<close>

theorem parse_spf_lookup_mechanisms_example:
  "lookup_mechanisms (parse_spf ''v=spf1 include:a.com a mx ~all'')
     = [''include:a.com'', ''a'', ''mx'']
   \<and> length (lookup_mechanisms (parse_spf ''v=spf1 include:a.com a mx ~all'')) = 3"
  by code_simp

text \<open>
  C2, as the claim states it: the tags of
  \<^verbatim>\<open>v=DMARC1; p=reject; pct=50; rua=mailto:x@y.com\<close> are \<^verbatim>\<open>p\<close>, \<^verbatim>\<open>pct\<close> and \<^verbatim>\<open>rua\<close>
  and no others. This fails: the version tag \<^verbatim>\<open>v\<close> is a tag of the mapping too.
\<close>

theorem parse_dmarc_example_has_version:
  "parse_dmarc ''v=DMARC1; p=reject; pct=50; rua=mailto:x@y.com''
     \<noteq> [''p'' \<mapsto> ''reject'', ''pct'' \<mapsto> ''50'', ''rua'' \<mapsto> ''mailto:x@y.com'']"
proof
  assume three:
    "parse_dmarc ''v=DMARC1; p=reject; pct=50; rua=mailto:x@y.com''
       = [''p'' \<mapsto> ''reject'', ''pct'' \<mapsto> ''50'', ''rua'' \<mapsto> ''mailto:x@y.com'']"
  have "parse_dmarc ''v=DMARC1; p=reject; pct=50; rua=mailto:x@y.com'' ''v''
          = Some ''DMARC1''"
    by code_simp
  with three show False by simp
qed

text \<open>
  C2, amended: the tags of \<^verbatim>\<open>v=DMARC1; p=reject; pct=50; rua=mailto:x@y.com\<close> are
  \<^verbatim>\<open>v\<close>, \<^verbatim>\<open>p\<close>, \<^verbatim>\<open>pct\<close> and \<^verbatim>\<open>rua\<close> with the values \<^verbatim>\<open>DMARC1\<close>, \<^verbatim>\<open>reject\<close>, \<^verbatim>\<open>50\<close>
  and \<^verbatim>\<open>mailto:x@y.com\<close>, and no others.
\<close>

theorem parse_dmarc_example:
  "parse_dmarc ''v=DMARC1; p=reject; pct=50; rua=mailto:x@y.com''
     = [''v'' \<mapsto> ''DMARC1'', ''p'' \<mapsto> ''reject'', ''pct'' \<mapsto> ''50'',
        ''rua'' \<mapsto> ''mailto:x@y.com'']"
  by (simp add: parse_dmarc_def dmarc_part_def strip_def lower_def lower_char_def
        is_upper_def is_space_def)

section \<open>Properties of the scoring engine\<close>

text \<open>
  C3. With no SPF record, no DMARC text (absent, or empty) and no DKIM selector, the
  score is 20 and the reasons are three: no SPF record, no DMARC record, no DKIM
  selector, in this order. The other arguments do not matter.
\<close>

theorem score_nothing_published:
  "score_and_conclusions [] spf_details spf_lookup_count spf_errors None dmarc_tags []
     = \<lparr>score = 100 - 40 - 30 - 10,
        reasons =
          [''No SPF record found (high risk of spoofing).'',
           ''No DMARC record found (no domain-wide policy for unauthenticated mail).'',
           ''No DKIM selectors found using heuristics (may not use DKIM).'']\<rparr>
   \<and> score_and_conclusions [] spf_details spf_lookup_count spf_errors (Some []) dmarc_tags []
     = score_and_conclusions [] spf_details spf_lookup_count spf_errors None dmarc_tags []
   \<and> score (score_and_conclusions [] spf_details spf_lookup_count spf_errors None
        dmarc_tags []) = 20
   \<and> length (reasons (score_and_conclusions [] spf_details spf_lookup_count spf_errors None
        dmarc_tags [])) = 3"
  by (simp add: score_and_conclusions_def raw_score_def spf_rules_def dmarc_rules_def
        dkim_rules_def deduct_def)

text \<open>
  C8. Whatever TXT strings the query for the selector returns, the prober returns a
  result, and in it \<open>has_pub\<close> holds exactly when the \<^verbatim>\<open>p=\<close> value extracted from these
  strings is there, is not empty and is not \<^verbatim>\<open>-\<close>; the estimate of the key size is then
  6 times the length of the value with its white space removed, and there is no estimate
  otherwise. A value of 256 characters without its white space gives 1536. The result
  is present exactly when the query returned a string, and its raw text is the string
  the prober read.
\<close>

theorem dkim_public_key_estimate:
  assumes "q (sel @ ''._domainkey.'' @ domain) = Inr txts"
  shows "\<exists>info. check_dkim_selector q domain sel = Inr info
           \<and> present info = (txts \<noteq> [])
           \<and> raw_txt info = (if txts = [] then None else Some (choose_dkim_txt txts))
           \<and> has_pub info
               = (case published_p txts of
                    None \<Rightarrow> False
                  | Some v \<Rightarrow> v \<noteq> [] \<and> v \<noteq> ''-'')
           \<and> key_bits_approx info
               = (case published_p txts of
                    None \<Rightarrow> None
                  | Some v \<Rightarrow>
                      if v \<noteq> [] \<and> v \<noteq> ''-''
                      then Some (6 * int (length (remove_spaces v))) else None)
           \<and> (if has_pub info
                 \<and> map_option (length \<circ> remove_spaces) (published_p txts) = Some 256
               then key_bits_approx info = Some 1536 else True)"
proof (cases "txts = []")
  case True
  with assms show ?thesis
    by (simp add: check_dkim_selector_def published_p_def)
next
  case False
  with assms show ?thesis
    by (cases "search (tag_re ''p'') (choose_dkim_txt txts)")
       (auto simp: check_dkim_selector_def published_p_def Let_def)
qed

text \<open>The prober at a record whose key has 256 characters and a blank inside, at a
  record with a revoked key, and at a name without a record.\<close>

theorem dkim_public_key_estimate_witness:
  "key_256_dns ''s1._domainkey.example.com'' = Inr [key_256_txt]
   \<and> published_p [key_256_txt] = Some key_256
   \<and> length (remove_spaces key_256) = 256
   \<and> (\<exists>info. check_dkim_selector key_256_dns ''example.com'' ''s1'' = Inr info
         \<and> has_pub info \<and> key_bits_approx info = Some 1536)
   \<and> key_256_dns ''s2._domainkey.example.com'' = Inr [''v=DKIM1; p=-'']
   \<and> published_p [''v=DKIM1; p=-''] = Some ''-''
   \<and> (\<exists>info. check_dkim_selector key_256_dns ''example.com'' ''s2'' = Inr info
         \<and> has_pub info = False \<and> key_bits_approx info = None)
   \<and> (\<exists>info. check_dkim_selector key_256_dns ''example.com'' ''s3'' = Inr info
         \<and> present info = False \<and> has_pub info = False \<and> key_bits_approx info = None)"
proof -
  have a1: "key_256_dns (''s1'' @ ''._domainkey.'' @ ''example.com'') = Inr [key_256_txt]"
    by (simp add: key_256_dns_def)
  have a2: "key_256_dns (''s2'' @ ''._domainkey.'' @ ''example.com'') = Inr [''v=DKIM1; p=-'']"
    by (simp add: key_256_dns_def)
  have a3: "key_256_dns (''s3'' @ ''._domainkey.'' @ ''example.com'') = Inr []"
    by (simp add: key_256_dns_def)
  have p1: "published_p [key_256_txt] = Some key_256"
    by code_simp
  have l1: "length (remove_spaces key_256) = 256"
    by code_simp
  have n1: "key_256 \<noteq> [] \<and> key_256 \<noteq> ''-''"
    by code_simp
  have p2: "published_p [''v=DKIM1; p=-''] = Some ''-''"
    by code_simp
  have p3: "published_p [] = None"
    by (simp add: published_p_def)
  have r1: "\<exists>info. check_dkim_selector key_256_dns ''example.com'' ''s1'' = Inr info
         \<and> has_pub info \<and> key_bits_approx info = Some 1536"
    using dkim_public_key_estimate [of key_256_dns "''s1''" "''example.com''" "[key_256_txt]", OF a1] by (auto simp: p1 l1 n1)
  have r2: "\<exists>info. check_dkim_selector key_256_dns ''example.com'' ''s2'' = Inr info
         \<and> has_pub info = False \<and> key_bits_approx info = None"
    using dkim_public_key_estimate [of key_256_dns "''s2''" "''example.com''" "[''v=DKIM1; p=-'']", OF a2] by (auto simp: p2)
  have r3: "\<exists>info. check_dkim_selector key_256_dns ''example.com'' ''s3'' = Inr info
         \<and> present info = False \<and> has_pub info = False \<and> key_bits_approx info = None"
    using dkim_public_key_estimate [of key_256_dns "''s3''" "''example.com''" "[]", OF a3] by (auto simp: p3)
  from a1 have b1: "key_256_dns ''s1._domainkey.example.com'' = Inr [key_256_txt]" by simp
  from a2 have b2: "key_256_dns ''s2._domainkey.example.com'' = Inr [''v=DKIM1; p=-'']" by simp
  show ?thesis
    by (intro conjI) (fact b1, fact p1, fact l1, fact r1, fact b2, fact p2, fact r2, fact r3)
qed

section \<open>Properties of the scoring engine: the lookup count\<close>

text \<open>The rules after the SPF rules subtract from the score and append to the reasons
  the same amounts and texts, whatever the score and the reasons were.\<close>

lemma dkim_rule_shift:
  "score (dkim_rule k c) = score c + score (dkim_rule k \<lparr>score = 0, reasons = []\<rparr>)
   \<and> reasons (dkim_rule k c) = reasons c @ reasons (dkim_rule k \<lparr>score = 0, reasons = []\<rparr>)"
  by (simp add: dkim_rule_def deduct_def split: option.split)

lemma fold_dkim_rule_shift:
  "score (fold dkim_rule ks c) = score c + score (fold dkim_rule ks \<lparr>score = 0, reasons = []\<rparr>)
   \<and> reasons (fold dkim_rule ks c) = reasons c @ reasons (fold dkim_rule ks \<lparr>score = 0, reasons = []\<rparr>)"
proof (induction ks arbitrary: c)
  case Nil
  show ?case by simp
next
  case (Cons k ks)
  show ?case
    using Cons.IH [of "dkim_rule k c"] Cons.IH [of "dkim_rule k \<lparr>score = 0, reasons = []\<rparr>"]
      dkim_rule_shift [of k c]
    by simp
qed

lemma dkim_rules_shift:
  "score (dkim_rules ks c) = score c + score (dkim_rules ks \<lparr>score = 0, reasons = []\<rparr>)
   \<and> reasons (dkim_rules ks c) = reasons c @ reasons (dkim_rules ks \<lparr>score = 0, reasons = []\<rparr>)"
  using fold_dkim_rule_shift [of ks c]
  by (simp add: dkim_rules_def deduct_def)

lemma dmarc_rules_shift:
  "score (dmarc_rules dt tags c) = score c + score (dmarc_rules dt tags \<lparr>score = 0, reasons = []\<rparr>)
   \<and> reasons (dmarc_rules dt tags c) = reasons c @ reasons (dmarc_rules dt tags \<lparr>score = 0, reasons = []\<rparr>)"
  by (simp add: dmarc_rules_def deduct_def Let_def)

text \<open>What follows the SPF rules: it subtracts and appends, whatever came before.\<close>

lemma later_rules_shift:
  "score (dkim_rules ks (dmarc_rules dt tags c))
     = score c + score (dkim_rules ks (dmarc_rules dt tags \<lparr>score = 0, reasons = []\<rparr>))
   \<and> reasons (dkim_rules ks (dmarc_rules dt tags c))
     = reasons c @ reasons (dkim_rules ks (dmarc_rules dt tags \<lparr>score = 0, reasons = []\<rparr>))"
  using dkim_rules_shift [of ks "dmarc_rules dt tags c"]
    dkim_rules_shift [of ks "dmarc_rules dt tags \<lparr>score = 0, reasons = []\<rparr>"]
    dmarc_rules_shift [of dt tags c]
  by simp

text \<open>With an SPF record, the lookup count only decides what is deducted last.\<close>

lemma spf_rules_count:
  "rs \<noteq> [] \<Longrightarrow> spf_rules rs ds n c =
     (if n > 10 then deduct 20 (lookups_exceeded n) (spf_rules rs ds 0 c)
      else if n > 7 then deduct 7 (lookups_close n) (spf_rules rs ds 0 c)
      else spf_rules rs ds 0 c)"
  by (simp add: spf_rules_def Let_def SPF_DNS_LOOKUP_LIMIT_def)

lemma str_int_10: "str_int 10 = ''10''"
  by code_simp

text \<open>
  C6, as the claim states it: with SPF records, a lookup count from 7 to 10 costs 7 points
  with a reason that it is close to the limit. This fails at 7: the score and the reasons
  are those of a count of 0.
\<close>

theorem lookup_count_seven_not_close:
  "score (score_and_conclusions [''v=spf1 mx -all''] [parse_spf ''v=spf1 mx -all''] 7 [] None Map.empty [])
     = score (score_and_conclusions [''v=spf1 mx -all''] [parse_spf ''v=spf1 mx -all''] 0 [] None Map.empty [])
   \<and> reasons (score_and_conclusions [''v=spf1 mx -all''] [parse_spf ''v=spf1 mx -all''] 7 [] None Map.empty [])
     = [''SPF record has no 'all' mechanism - may allow unintended senders.'',
        ''No DMARC record found (no domain-wide policy for unauthenticated mail).'',
        ''No DKIM selectors found using heuristics (may not use DKIM).'']
   \<and> score (score_and_conclusions [''v=spf1 mx -all''] [parse_spf ''v=spf1 mx -all''] 7 [] None Map.empty []) = 55"
  by code_simp

text \<open>
  C6, amended: with SPF records, a lookup count above 10 costs 20 points, with a reason
  that has the count and the limit 10 in it; a count from 8 to 10 costs 7 points, with the
  reason that it is close to the limit; a count up to 7 costs nothing and adds no reason.
  The score before the clamp and the reasons are compared with those of a lookup count
  of 0, all other arguments the same; the reason stands after the reasons of the SPF
  rules and before those of the DMARC and DKIM rules.
\<close>

theorem spf_lookup_count_rule:
  assumes "spf_records \<noteq> []"
  shows "score (raw_score spf_records ds n es dt tags ks)
           = score (raw_score spf_records ds 0 es dt tags ks)
             - (if n > 10 then 20 else if n > 7 then 7 else 0)
         \<and> reasons (raw_score spf_records ds n es dt tags ks)
           = reasons (spf_rules spf_records ds 0 \<lparr>score = 100, reasons = []\<rparr>)
             @ (if n > 10 then [lookups_exceeded n] else if n > 7 then [lookups_close n] else [])
             @ reasons (dkim_rules ks (dmarc_rules dt tags \<lparr>score = 0, reasons = []\<rparr>))
         \<and> lookups_exceeded n
           = ''SPF mechanisms likely cause '' @ str_int n
             @ '' DNS lookups (> 10). This can break SPF enforcement.''
         \<and> lookups_close n
           = ''SPF mechanisms cause '' @ str_int n @ '' DNS lookups (close to limit).''"
proof -
  let ?z = "\<lparr>score = 100, reasons = []\<rparr>"
  have a: "score (raw_score spf_records ds m es dt tags ks)
             = score (spf_rules spf_records ds m ?z)
               + score (dkim_rules ks (dmarc_rules dt tags \<lparr>score = 0, reasons = []\<rparr>))
           \<and> reasons (raw_score spf_records ds m es dt tags ks)
             = reasons (spf_rules spf_records ds m ?z)
               @ reasons (dkim_rules ks (dmarc_rules dt tags \<lparr>score = 0, reasons = []\<rparr>))" for m
    unfolding raw_score_def by (rule later_rules_shift)
  have b: "score (spf_rules spf_records ds n ?z)
             = score (spf_rules spf_records ds 0 ?z) - (if n > 10 then 20 else if n > 7 then 7 else 0)
           \<and> reasons (spf_rules spf_records ds n ?z)
             = reasons (spf_rules spf_records ds 0 ?z)
               @ (if n > 10 then [lookups_exceeded n] else if n > 7 then [lookups_close n] else [])"
    using spf_rules_count [OF assms, of ds n ?z] by (simp add: deduct_def)
  have c: "lookups_exceeded n
           = ''SPF mechanisms likely cause '' @ str_int n
             @ '' DNS lookups (> 10). This can break SPF enforcement.''"
    by (simp add: lookups_exceeded_def SPF_DNS_LOOKUP_LIMIT_def str_int_10)
  have d: "lookups_close n
           = ''SPF mechanisms cause '' @ str_int n @ '' DNS lookups (close to limit).''"
    by (simp add: lookups_close_def)
  show ?thesis
    using a [of n] a [of 0] b c d by simp
qed

text \<open>A record with a lookup count of 8, of 0 and of 11.\<close>

theorem spf_lookup_count_rule_witness:
  "score (raw_score [''v=spf1 mx -all''] [parse_spf ''v=spf1 mx -all''] 8 [] None Map.empty []) = 48
   \<and> score (raw_score [''v=spf1 mx -all''] [parse_spf ''v=spf1 mx -all''] 0 [] None Map.empty []) = 55
   \<and> score (raw_score [''v=spf1 mx -all''] [parse_spf ''v=spf1 mx -all''] 11 [] None Map.empty []) = 35"
proof -
  have ne: "[''v=spf1 mx -all''] \<noteq> []" by simp
  have base: "score (raw_score [''v=spf1 mx -all''] [parse_spf ''v=spf1 mx -all''] 0 [] None Map.empty []) = 55"
    by code_simp
  show ?thesis
    using spf_lookup_count_rule [OF ne, of "[parse_spf ''v=spf1 mx -all'']" 8 "[]" None Map.empty "[]"]
      spf_lookup_count_rule [OF ne, of "[parse_spf ''v=spf1 mx -all'']" 11 "[]" None Map.empty "[]"]
      base
    by simp
qed

section \<open>Properties of the scoring engine: the range of the score\<close>

text \<open>No rule adds to the score.\<close>

lemma spf_detail_rule_le: "score (spf_detail_rule d c) \<le> score c"
  by (simp add: spf_detail_rule_def deduct_def split: option.split)

lemma fold_spf_detail_rule_le: "score (fold spf_detail_rule ds c) \<le> score c"
proof (induction ds arbitrary: c)
  case Nil
  show ?case by simp
next
  case (Cons d ds)
  have "score (fold spf_detail_rule ds (spf_detail_rule d c)) \<le> score (spf_detail_rule d c)"
    by (rule Cons.IH)
  also have "\<dots> \<le> score c" by (rule spf_detail_rule_le)
  finally show ?case by simp
qed

lemma spf_rules_le: "score (spf_rules rs ds n c) \<le> score c"
proof -
  have a: "score (fold spf_detail_rule ds c) \<le> score c" for c
    by (rule fold_spf_detail_rule_le)
  show ?thesis
    using a [of c]
      a [of "deduct 30 ''Multiple SPF records found (invalid SPF configuration).'' c"]
    by (simp add: spf_rules_def deduct_def Let_def SPF_DNS_LOOKUP_LIMIT_def)
qed

lemma dmarc_rules_le: "score (dmarc_rules dt tags c) \<le> score c"
  by (simp add: dmarc_rules_def deduct_def Let_def)

lemma dkim_rule_le: "score (dkim_rule k c) \<le> score c"
  by (simp add: dkim_rule_def deduct_def split: option.split)

lemma fold_dkim_rule_le: "score (fold dkim_rule ks c) \<le> score c"
proof (induction ks arbitrary: c)
  case Nil
  show ?case by simp
next
  case (Cons k ks)
  have "score (fold dkim_rule ks (dkim_rule k c)) \<le> score (dkim_rule k c)"
    by (rule Cons.IH)
  also have "\<dots> \<le> score c" by (rule dkim_rule_le)
  finally show ?case by simp
qed

lemma dkim_rules_le: "score (dkim_rules ks c) \<le> score c"
  by (simp add: dkim_rules_def deduct_def fold_dkim_rule_le)

lemma raw_score_le: "score (raw_score rs ds n es dt tags ks) \<le> 100"
proof -
  have "score (raw_score rs ds n es dt tags ks)
      \<le> score (dmarc_rules dt tags (spf_rules rs ds n \<lparr>score = 100, reasons = []\<rparr>))"
    unfolding raw_score_def by (rule dkim_rules_le)
  also have "\<dots> \<le> score (spf_rules rs ds n \<lparr>score = 100, reasons = []\<rparr>)"
    by (rule dmarc_rules_le)
  also have "\<dots> \<le> score \<lparr>score = 100, reasons = []\<rparr>"
    by (rule spf_rules_le)
  finally show ?thesis by simp
qed

text \<open>
  C10. The score starts at 100 and no rule adds to it: before the clamp it is at most 100
  for every input, so the second clamp (a score above 100 set to 100) changes nothing,
  the result being that of the first clamp alone, and the score returned is from 0 to 100.
\<close>

theorem score_never_above_start:
  "score (raw_score rs ds n es dt tags ks) \<le> 100
   \<and> score_and_conclusions rs ds n es dt tags ks
       = (if score (raw_score rs ds n es dt tags ks) < 0
          then (raw_score rs ds n es dt tags ks)\<lparr>score := 0\<rparr>
          else raw_score rs ds n es dt tags ks)
   \<and> 0 \<le> score (score_and_conclusions rs ds n es dt tags ks)
   \<and> score (score_and_conclusions rs ds n es dt tags ks) \<le> 100"
  using raw_score_le [of rs ds n es dt tags ks]
  by (simp add: score_and_conclusions_def Let_def)

section \<open>Properties of the SPF lookup resolver\<close>

text \<open>Every call of the walk is in the domain of the recursion.\<close>

lemma walk_total: "All recurse_include_loop_found_loop_dom"
  by (relation "inv_image (less_than <*lex*> less_than) walk_size")
     (auto simp: walk_size_def)

text \<open>The chain, walked with the default depth.\<close>

lemma chain_walk:
  "resolve_walk chain_dns ''d0'' (chain_txt 0) 10
     = \<lparr>resolved = set (map chain_name [1 ..< 12]),
        visited = set (map chain_name [1 ..< 12]),
        errors = [''spf include recursion depth exceeded at d11''],
        lookup_count = 22,
        queries = map chain_name [1 ..< 12]\<rparr>"
  by code_simp

text \<open>
  C4. The walk terminates on every input: every argument of \<open>recurse\<close>, of
  \<open>include_loop\<close> and of \<open>found_loop\<close> is in the domain of the recursion. A call beyond
  the maximal depth only appends the error that names the domain at which it was cut
  off; it counts nothing and queries nothing. On the chain of 11 nested includes with
  the maximal depth 10, the walk ends with this error for \<^verbatim>\<open>d11\<close>, the 11th name; it has
  counted the two mechanisms of each record from depth 0 to 10 and not those of the
  record of \<^verbatim>\<open>d11\<close>, and has not queried \<^verbatim>\<open>d12\<close>.
\<close>

theorem depth_guard:
  "recurse_include_loop_found_loop_dom x
   \<and> recurse q m nm spf_text (m + 1 + int k) w
       = w\<lparr>errors := errors w @ [''spf include recursion depth exceeded at '' @ nm]\<rparr>
   \<and> errors (resolve_walk chain_dns ''d0'' (chain_txt 0) 10)
       = [''spf include recursion depth exceeded at d11'']
   \<and> lookup_count (resolve_walk chain_dns ''d0'' (chain_txt 0) 10) = 22
   \<and> queries (resolve_walk chain_dns ''d0'' (chain_txt 0) 10) = map chain_name [1 ..< 12]
   \<and> resolve_spf_lookups chain_dns ''d0'' (chain_txt 0) MAX_INCLUDE_RECURSION
       = (set (map chain_name [1 ..< 12]), 22,
          [''spf include recursion depth exceeded at d11''])"
proof -
  have "recurse_include_loop_found_loop_dom x"
    using walk_total by blast
  moreover have "recurse q m nm spf_text (m + 1 + int k) w
       = w\<lparr>errors := errors w @ [''spf include recursion depth exceeded at '' @ nm]\<rparr>"
    by (simp add: recurse.simps)
  ultimately show ?thesis
    by (simp add: chain_walk resolve_spf_lookups_def MAX_INCLUDE_RECURSION_def)
qed

text \<open>The walk on the chain is in the domain, and ends with the error.\<close>

theorem depth_guard_witness:
  "recurse_include_loop_found_loop_dom
     (Inl (chain_dns, 10, ''d0'', chain_txt 0, 0,
           \<lparr>resolved = {}, visited = {}, errors = [], lookup_count = 0, queries = []\<rparr>))
   \<and> errors (resolve_walk chain_dns ''d0'' (chain_txt 0) 10)
       = [''spf include recursion depth exceeded at d11'']"
  using depth_guard [of "Inl (chain_dns, 10, ''d0'', chain_txt 0, 0,
           \<lparr>resolved = {}, visited = {}, errors = [], lookup_count = 0, queries = []\<rparr>)"]
  by blast

text \<open>A walk keeps the invariant \<open>queried_once\<close>: a name is queried only when it is not
  visited yet, and is visited from then on.\<close>

lemma queried_once_walk:
  "queried_once w \<Longrightarrow> queried_once (recurse q m nm tx d w)"
  "queried_once w \<Longrightarrow> queried_once (include_loop q m incs d w)"
  "queried_once w \<Longrightarrow> queried_once (found_loop q m inc ss d w)"
proof (induction q m nm tx d w and q m incs d w and q m inc ss d w
       rule: recurse_include_loop_found_loop.induct)
  case (1 q m nm tx d w)
  show ?case
  proof (cases "d > m")
    case True
    with "1.prems" show ?thesis by (simp add: recurse.simps queried_once_def)
  next
    case False
    from "1.prems" have "queried_once (w\<lparr>lookup_count :=
        lookup_count w + int (length (findall SPF_MECHANISM_LOOKUP_RE tx))\<rparr>)"
      by (simp add: queried_once_def)
    with False "1.IH" show ?thesis by (simp add: recurse.simps)
  qed
next
  case (2 q m d w)
  then show ?case by simp
next
  case (3 q m inc0 rest d w)
  show ?case
  proof (cases "strip inc0 \<in> visited w")
    case True
    with 3 show ?thesis by simp
  next
    case False
    with "3.prems" have fresh: "strip inc0 \<notin> set (queries w)"
      by (auto simp: queried_once_def)
    show ?thesis
    proof (cases "q (strip inc0)")
      case (Inl e)
      from "3.prems" fresh have "queried_once (w\<lparr>visited := insert (strip inc0) (visited w),
                   queries := queries w @ [strip inc0],
                   errors := errors w
                     @ [''error resolving include '' @ strip inc0 @ '': '' @ e]\<rparr>)"
        by (auto simp: queried_once_def)
      with False Inl "3.IH"(2) show ?thesis by simp
    next
      case (Inr txts)
      from "3.prems" fresh have "queried_once (w\<lparr>visited := insert (strip inc0) (visited w),
                      queries := queries w @ [strip inc0],
                      resolved := insert (strip inc0) (resolved w)\<rparr>)"
        by (auto simp: queried_once_def)
      with False Inr "3.IH"(3,4) show ?thesis by simp
    qed
  qed
next
  case (4 q m inc d w)
  then show ?case by simp
next
  case (5 q m inc s ss d w)
  then show ?case by simp
qed

lemma walk_init: "queried_once \<lparr>resolved = {}, visited = {}, errors = [], lookup_count = 0, queries = []\<rparr>"
  by (simp add: queried_once_def)

lemma resolve_walk_queried_once: "queried_once (resolve_walk q domain spf_text m)"
  unfolding resolve_walk_def by (rule queried_once_walk(1) [OF walk_init])

text \<open>A walk only adds to the names queried.\<close>

lemma queries_grow:
  "set (queries w) \<subseteq> set (queries (recurse q m nm tx d w))"
  "set (queries w) \<subseteq> set (queries (include_loop q m incs d w))"
  "set (queries w) \<subseteq> set (queries (found_loop q m inc ss d w))"
proof (induction q m nm tx d w and q m incs d w and q m inc ss d w
       rule: recurse_include_loop_found_loop.induct)
  case (1 q m nm tx d w)
  then show ?case by (cases "d > m") (simp_all add: recurse.simps)
next
  case (2 q m d w)
  show ?case by simp
next
  case (3 q m inc0 rest d w)
  show ?case
  proof (cases "strip inc0 \<in> visited w")
    case True
    with 3 show ?thesis by simp
  next
    case False
    show ?thesis
    proof (cases "q (strip inc0)")
      case (Inl e)
      with False "3.IH"(2) show ?thesis by auto
    next
      case (Inr txts)
      with False "3.IH"(3,4) show ?thesis by auto
    qed
  qed
next
  case (4 q m inc d w)
  show ?case by simp
next
  case (5 q m inc s ss d w)
  then show ?case by auto
qed

text \<open>A walk depends on the DNS data only through the answers to its queries.\<close>

lemma same_answers:
  "(\<forall>n\<in>set (queries (recurse q m nm tx d w)). q' n = q n)
     \<Longrightarrow> recurse q' m nm tx d w = recurse q m nm tx d w"
  "(\<forall>n\<in>set (queries (include_loop q m incs d w)). q' n = q n)
     \<Longrightarrow> include_loop q' m incs d w = include_loop q m incs d w"
  "(\<forall>n\<in>set (queries (found_loop q m inc ss d w)). q' n = q n)
     \<Longrightarrow> found_loop q' m inc ss d w = found_loop q m inc ss d w"
proof (induction q m nm tx d w and q m incs d w and q m inc ss d w
       rule: recurse_include_loop_found_loop.induct)
  case (1 q m nm tx d w)
  then show ?case by (cases "d > m") (simp_all add: recurse.simps)
next
  case (2 q m d w)
  show ?case by simp
next
  case (3 q m inc0 rest d w)
  show ?case
  proof (cases "strip inc0 \<in> visited w")
    case True
    with 3 show ?thesis by simp
  next
    case False
    show ?thesis
    proof (cases "q (strip inc0)")
      case (Inl e)
      let ?w1 = "w\<lparr>visited := insert (strip inc0) (visited w),
                   queries := queries w @ [strip inc0],
                   errors := errors w
                     @ [''error resolving include '' @ strip inc0 @ '': '' @ e]\<rparr>"
      have res: "include_loop q m (inc0 # rest) d w = include_loop q m rest d ?w1"
        using False Inl by simp
      have "strip inc0 \<in> set (queries ?w1)" by simp
      then have "strip inc0 \<in> set (queries (include_loop q m rest d ?w1))"
        using queries_grow(2) [of ?w1 q m rest d] by blast
      with "3.prems" res have same: "q' (strip inc0) = q (strip inc0)" by simp
      from "3.prems" res have "\<forall>n\<in>set (queries (include_loop q m rest d ?w1)). q' n = q n"
        by simp
      with "3.IH"(2) [OF False Inl] have "include_loop q' m rest d ?w1 = include_loop q m rest d ?w1"
        by simp
      with False Inl same res show ?thesis by simp
    next
      case (Inr txts)
      let ?w1 = "w\<lparr>visited := insert (strip inc0) (visited w),
                      queries := queries w @ [strip inc0],
                      resolved := insert (strip inc0) (resolved w)\<rparr>"
      let ?w2 = "found_loop q m (strip inc0) (filter is_spf txts) (d + 1) ?w1"
      have res: "include_loop q m (inc0 # rest) d w = include_loop q m rest d ?w2"
        using False Inr by simp
      have sub: "set (queries ?w2) \<subseteq> set (queries (include_loop q m rest d ?w2))"
        by (rule queries_grow(2))
      have "strip inc0 \<in> set (queries ?w1)" by simp
      then have "strip inc0 \<in> set (queries ?w2)"
        using queries_grow(3) [of ?w1 q m "strip inc0" "filter is_spf txts" "d + 1"] by blast
      with sub "3.prems" res have same: "q' (strip inc0) = q (strip inc0)" by auto
      from "3.prems" res have all: "\<forall>n\<in>set (queries (include_loop q m rest d ?w2)). q' n = q n"
        by simp
      with sub have "\<forall>n\<in>set (queries ?w2). q' n = q n" by blast
      with "3.IH"(3) [OF False Inr]
      have f: "found_loop q' m (strip inc0) (filter is_spf txts) (d + 1) ?w1 = ?w2" by simp
      from all "3.IH"(4) [OF False Inr]
      have "include_loop q' m rest d ?w2 = include_loop q m rest d ?w2" by simp
      with False Inr same res f show ?thesis by simp
    qed
  qed
next
  case (4 q m inc d w)
  show ?case by simp
next
  case (5 q m inc s ss d w)
  let ?w1 = "recurse q m inc s d w"
  have res: "found_loop q m inc (s # ss) d w = found_loop q m inc ss d ?w1" by simp
  have sub: "set (queries ?w1) \<subseteq> set (queries (found_loop q m inc ss d ?w1))"
    by (rule queries_grow(3))
  from "5.prems" res have all: "\<forall>n\<in>set (queries (found_loop q m inc ss d ?w1)). q' n = q n"
    by simp
  with sub have "\<forall>n\<in>set (queries ?w1). q' n = q n" by blast
  with "5.IH"(1) have r: "recurse q' m inc s d w = ?w1" by simp
  from all "5.IH"(2) have "found_loop q' m inc ss d ?w1 = found_loop q m inc ss d ?w1" by simp
  with r show ?case by simp
qed

text \<open>
  C5. In one walk every include target is queried at most once: the names queried are
  distinct, and they are the names visited. Two walks from the same text return the same
  resolved domains, lookup count and errors when the DNS data are the same; it suffices
  that the second walk gets the same answers for the names the first one queried.
\<close>

theorem include_targets_queried_once:
  "distinct (queries (resolve_walk q domain spf_text m))
   \<and> visited (resolve_walk q domain spf_text m) = set (queries (resolve_walk q domain spf_text m))
   \<and> ((\<forall>n\<in>set (queries (resolve_walk q domain spf_text m)). q' n = q n)
        \<longrightarrow> resolve_spf_lookups q' domain spf_text m = resolve_spf_lookups q domain spf_text m)"
proof -
  have once: "queried_once (resolve_walk q domain spf_text m)"
    by (rule resolve_walk_queried_once)
  have "resolve_walk q' domain spf_text m = resolve_walk q domain spf_text m"
    if "\<forall>n\<in>set (queries (resolve_walk q domain spf_text m)). q' n = q n"
    using that unfolding resolve_walk_def by (rule same_answers(1))
  then show ?thesis
    using once by (simp add: queried_once_def resolve_spf_lookups_def)
qed

text \<open>Three names that include one another: each is queried once, and a record under a
  name that is not queried changes nothing.\<close>

lemma loop_walk:
  "resolve_walk loop_dns ''example.com'' loop_txt 10
     = \<lparr>resolved = {''a.example'', ''b.example'', ''example.com''},
        visited = {''a.example'', ''b.example'', ''example.com''},
        errors = [],
        lookup_count = 10,
        queries = [''a.example'', ''b.example'', ''example.com'']\<rparr>"
  by code_simp

theorem include_targets_queried_once_witness:
  "queries (resolve_walk loop_dns ''example.com'' loop_txt 10)
     = [''a.example'', ''b.example'', ''example.com'']
   \<and> distinct (queries (resolve_walk loop_dns ''example.com'' loop_txt 10))
   \<and> map loop_dns_later [''a.example'', ''b.example'', ''example.com'']
     = map loop_dns [''a.example'', ''b.example'', ''example.com'']
   \<and> loop_dns_later ''c.example'' \<noteq> loop_dns ''c.example''
   \<and> resolve_spf_lookups loop_dns_later ''example.com'' loop_txt 10
     = resolve_spf_lookups loop_dns ''example.com'' loop_txt 10
   \<and> resolve_spf_lookups loop_dns ''example.com'' loop_txt 10
     = ({''a.example'', ''b.example'', ''example.com''}, 10, [])"
proof -
  have same: "map loop_dns_later [''a.example'', ''b.example'', ''example.com'']
     = map loop_dns [''a.example'', ''b.example'', ''example.com'']"
    by (simp add: loop_dns_later_def)
  have other: "loop_dns_later ''c.example'' \<noteq> loop_dns ''c.example''"
    by (simp add: loop_dns_later_def loop_dns_def)
  have agree: "\<forall>n\<in>set (queries (resolve_walk loop_dns ''example.com'' loop_txt 10)).
                 loop_dns_later n = loop_dns n"
    using same by (simp add: loop_walk)
  show ?thesis
    using include_targets_queried_once [of loop_dns "''example.com''" loop_txt 10 loop_dns_later]
      agree same other
    by (simp add: loop_walk resolve_spf_lookups_def)
qed

text \<open>A walk visits only names that includes reach.\<close>

lemma reach_walk:
  "visited w \<subseteq> include_reach q root
     \<Longrightarrow> (\<forall>t\<in>set (findall SPF_INCLUDE_RE tx). strip t \<in> include_reach q root)
     \<Longrightarrow> visited (recurse q m nm tx d w) \<subseteq> include_reach q root"
  "visited w \<subseteq> include_reach q root
     \<Longrightarrow> (\<forall>t\<in>set incs. strip t \<in> include_reach q root)
     \<Longrightarrow> visited (include_loop q m incs d w) \<subseteq> include_reach q root"
  "visited w \<subseteq> include_reach q root
     \<Longrightarrow> inc \<in> include_reach q root
     \<Longrightarrow> (\<forall>s\<in>set ss. is_spf s \<and> (\<exists>txts. q inc = Inr txts \<and> s \<in> set txts))
     \<Longrightarrow> visited (found_loop q m inc ss d w) \<subseteq> include_reach q root"
proof (induction q m nm tx d w and q m incs d w and q m inc ss d w
       rule: recurse_include_loop_found_loop.induct)
  case (1 q m nm tx d w)
  then show ?case by (cases "d > m") (simp_all add: recurse.simps)
next
  case (2 q m d w)
  then show ?case by simp
next
  case (3 q m inc0 rest d w)
  show ?case
  proof (cases "strip inc0 \<in> visited w")
    case True
    with 3 show ?thesis by simp
  next
    case False
    from "3.prems" have here: "strip inc0 \<in> include_reach q root" by simp
    from "3.prems" have later: "\<forall>t\<in>set rest. strip t \<in> include_reach q root" by simp
    show ?thesis
    proof (cases "q (strip inc0)")
      case (Inl e)
      with False "3.IH"(2) "3.prems"(1) here later show ?thesis by simp
    next
      case (Inr txts)
      let ?w1 = "w\<lparr>visited := insert (strip inc0) (visited w),
                      queries := queries w @ [strip inc0],
                      resolved := insert (strip inc0) (resolved w)\<rparr>"
      have v1: "visited ?w1 \<subseteq> include_reach q root"
        using "3.prems"(1) here by simp
      have served: "\<forall>s\<in>set (filter is_spf txts). is_spf s
                      \<and> (\<exists>txts. q (strip inc0) = Inr txts \<and> s \<in> set txts)"
        using Inr by simp
      have "visited (found_loop q m (strip inc0) (filter is_spf txts) (d + 1) ?w1)
              \<subseteq> include_reach q root"
        using "3.IH"(3) [OF False Inr v1 here served] .
      with "3.IH"(4) [OF False Inr] later False Inr show ?thesis by simp
    qed
  qed
next
  case (4 q m inc d w)
  then show ?case by simp
next
  case (5 q m inc s ss d w)
  from "5.prems"(3) obtain txts where s: "is_spf s" "q inc = Inr txts" "s \<in> set txts"
    by auto
  have "\<forall>t\<in>set (findall SPF_INCLUDE_RE s). strip t \<in> include_reach q root"
    using include_reach.step [OF "5.prems"(2) s(2) s(3) s(1)] by blast
  with "5.IH"(1) "5.prems"(1)
  have "visited (recurse q m inc s d w) \<subseteq> include_reach q root" by simp
  with "5.IH"(2) "5.prems"(2,3) show ?case by simp
qed

text \<open>
  C9. The walk queries only names that are include targets, of the text it starts from
  or of an SPF string published under a name it has reached through includes, and it
  resolves only names it has queried. A name that stands in these texts only as the
  target of a \<^verbatim>\<open>redirect=\<close> is not among them: it is not queried, not recursed into and
  not resolved. In particular a text without an include makes the walk query and resolve
  nothing, whatever it redirects to.
\<close>

theorem redirect_never_followed:
  "set (queries (resolve_walk q domain spf_text m)) \<subseteq> include_reach q spf_text
   \<and> resolved (resolve_walk q domain spf_text m)
       \<subseteq> set (queries (resolve_walk q domain spf_text m))
   \<and> (findall SPF_INCLUDE_RE spf_text = []
        \<longrightarrow> queries (resolve_walk q domain spf_text m) = []
            \<and> resolved (resolve_walk q domain spf_text m) = {})"
proof -
  have once: "queried_once (resolve_walk q domain spf_text m)"
    by (rule resolve_walk_queried_once)
  have "visited (resolve_walk q domain spf_text m) \<subseteq> include_reach q spf_text"
    unfolding resolve_walk_def
    by (rule reach_walk(1)) (simp_all add: include_reach.root)
  moreover have "queries (resolve_walk q domain spf_text m) = []
            \<and> resolved (resolve_walk q domain spf_text m) = {}"
    if "findall SPF_INCLUDE_RE spf_text = []"
    using that by (simp add: resolve_walk_def recurse.simps)
  ultimately show ?thesis
    using once by (simp add: queried_once_def)
qed

text \<open>The two redirect targets of the example are parsed and counted, and are not
  reached.\<close>

lemma redirect_walk:
  "resolve_walk redirect_dns ''example.com'' redirect_txt 10
     = \<lparr>resolved = {''a.example''}, visited = {''a.example''}, errors = [],
        lookup_count = 4, queries = [''a.example'']\<rparr>"
  by code_simp

lemma redirect_reach: "x \<in> include_reach redirect_dns redirect_txt \<Longrightarrow> x = ''a.example''"
proof (induction rule: include_reach.induct)
  case (root t)
  have "findall SPF_INCLUDE_RE redirect_txt = [''a.example'']" by code_simp
  moreover have "strip ''a.example'' = ''a.example''" by code_simp
  ultimately show ?case using root by simp
next
  case (step n txts s t)
  have a: "findall SPF_INCLUDE_RE ''unrelated text'' = []" by code_simp
  have b: "findall SPF_INCLUDE_RE ''v=spf1 mx redirect=s.example'' = []" by code_simp
  from step have "txts = [''unrelated text'', ''v=spf1 mx redirect=s.example'']"
    by (simp add: redirect_dns_def)
  with step a b show ?case by auto
qed

theorem redirect_never_followed_witness:
  "redirect (parse_spf redirect_txt) = Some ''r.example''
   \<and> lookup_mechanisms (parse_spf redirect_txt) = [''include:a.example'', ''redirect=r.example'']
   \<and> queries (resolve_walk redirect_dns ''example.com'' redirect_txt 10) = [''a.example'']
   \<and> resolved (resolve_walk redirect_dns ''example.com'' redirect_txt 10) = {''a.example''}
   \<and> ''a.example'' \<in> include_reach redirect_dns redirect_txt
   \<and> ''r.example'' \<notin> include_reach redirect_dns redirect_txt
   \<and> ''s.example'' \<notin> include_reach redirect_dns redirect_txt
   \<and> findall SPF_INCLUDE_RE ''v=spf1 redirect=r.example'' = []
   \<and> queries (resolve_walk redirect_dns ''example.com'' ''v=spf1 redirect=r.example'' 10) = []
   \<and> lookup_count (resolve_walk redirect_dns ''example.com'' ''v=spf1 redirect=r.example'' 10)
       = 1"
proof -
  have p: "redirect (parse_spf redirect_txt) = Some ''r.example''
   \<and> lookup_mechanisms (parse_spf redirect_txt) = [''include:a.example'', ''redirect=r.example'']"
    by code_simp
  have r: "''r.example'' \<notin> include_reach redirect_dns redirect_txt"
    using redirect_reach [of "''r.example''"] by auto
  have s: "''s.example'' \<notin> include_reach redirect_dns redirect_txt"
    using redirect_reach [of "''s.example''"] by auto
  have n: "findall SPF_INCLUDE_RE ''v=spf1 redirect=r.example'' = []"
    by code_simp
  have c: "lookup_count (resolve_walk redirect_dns ''example.com'' ''v=spf1 redirect=r.example'' 10)
       = 1"
    by code_simp
  have a: "set (queries (resolve_walk redirect_dns ''example.com'' redirect_txt 10))
             \<subseteq> include_reach redirect_dns redirect_txt"
    using redirect_never_followed [of redirect_dns "''example.com''" redirect_txt 10]
    by (rule conjunct1)
  have b: "queries (resolve_walk redirect_dns ''example.com'' ''v=spf1 redirect=r.example'' 10)
             = []"
    using redirect_never_followed
      [of redirect_dns "''example.com''" "''v=spf1 redirect=r.example''" 10] n
    by blast
  show ?thesis
    using a b c p r s n by (simp add: redirect_walk)
qed

end
